theory Spec2Isabelle
  imports Main
begin

section \<open>Text\<close>

text \<open>
  A Python \<^verbatim>\<open>str\<close> is a sequence of Unicode code points, and the patterns and
  literals of the assistant are Arabic, so a string is a list of code points here
  (the built-in characters of HOL are bytes).
\<close>

type_synonym ustring = "nat list"

text \<open>
  The code points for which \<^verbatim>\<open>str.isspace\<close> holds. For a \<^verbatim>\<open>str\<close> pattern
  the class \<^verbatim>\<open>\s\<close> of \<^verbatim>\<open>re\<close> is this set, and \<^verbatim>\<open>str.strip()\<close> without
  an argument removes exactly these.
\<close>

definition isspace :: "nat \<Rightarrow> bool" where
  "isspace c \<longleftrightarrow>
     (0x9 \<le> c \<and> c \<le> 0xD) \<or> (0x1C \<le> c \<and> c \<le> 0x20) \<or> c = 0x85 \<or> c = 0xA0 \<or>
     c = 0x1680 \<or> (0x2000 \<le> c \<and> c \<le> 0x200A) \<or> c = 0x2028 \<or> c = 0x2029 \<or>
     c = 0x202F \<or> c = 0x205F \<or> c = 0x3000"

text \<open>\<^verbatim>\<open>s.strip()\<close>\<close>

definition strip :: "ustring \<Rightarrow> ustring" where
  "strip s = rev (dropWhile isspace (rev (dropWhile isspace s)))"

text \<open>\<^verbatim>\<open>sub in s\<close> on two strings: \<^verbatim>\<open>sub\<close> starts at some position of \<^verbatim>\<open>s\<close>.\<close>

fun str_contains :: "ustring \<Rightarrow> ustring \<Rightarrow> bool" where
  "str_contains [] sub = (sub = [])"
| "str_contains (c # cs) sub = (take (length sub) (c # cs) = sub \<or> str_contains cs sub)"


section \<open>The name extractor\<close>

text \<open>
  \<^verbatim>\<open>extract_destination\<close> searches the utterance for the pattern
  \<^verbatim>\<open>(?:M1|M2|M3)\s*([\u0600-\u06FF\s]+)\<close>, whose three alternatives are the words
  U+0625 U+0644 U+0649, U+0644 U+0640 and the single letter U+0644 (lam), in this order.
\<close>

definition lam :: nat where
  "lam = 0x644"

definition tatweel :: nat where
  "tatweel = 0x640"

definition markers :: "ustring list" where
  "markers = [[0x625, lam, 0x649], [lam, tatweel], [lam]]"

text \<open>The character class \<^verbatim>\<open>[\u0600-\u06FF\s]\<close> of the capturing group.\<close>

definition in_class :: "nat \<Rightarrow> bool" where
  "in_class c \<longleftrightarrow> (0x600 \<le> c \<and> c \<le> 0x6FF) \<or> isspace c"

text \<open>
  The group \<^verbatim>\<open>([\u0600-\u06FF\s]+)\<close> ends the pattern, so the greedy \<^verbatim>\<open>+\<close> keeps
  the longest run of class characters; it fails when there is none.
\<close>

definition group1 :: "ustring \<Rightarrow> ustring option" where
  "group1 s = (let g = takeWhile in_class s in if g = [] then None else Some g)"

text \<open>
  \<^verbatim>\<open>\s*\<close> followed by the group. The greedy star first takes every leading blank;
  when the group fails behind \<open>k\<close> blanks the matcher backtracks and tries again
  behind \<open>k - 1\<close> of them.
\<close>

fun blanks_then_group :: "nat \<Rightarrow> ustring \<Rightarrow> ustring option" where
  "blanks_then_group 0 s = group1 s"
| "blanks_then_group (Suc k) s =
     (case group1 (drop (Suc k) s) of
        Some g \<Rightarrow> Some g
      | None \<Rightarrow> blanks_then_group k s)"

definition after_marker :: "ustring \<Rightarrow> ustring option" where
  "after_marker s = blanks_then_group (length (takeWhile isspace s)) s"

text \<open>
  The alternation at one start position: the alternatives are tried from left to right,
  and an alternative whose continuation fails gives way to the next one.
\<close>

fun alternatives :: "ustring list \<Rightarrow> ustring \<Rightarrow> ustring option" where
  "alternatives [] s = None"
| "alternatives (m # ms) s =
     (case (if take (length m) s = m then after_marker (drop (length m) s) else None) of
        Some g \<Rightarrow> Some g
      | None \<Rightarrow> alternatives ms s)"

text \<open>
  \<^verbatim>\<open>re.search\<close>: the start positions are tried from left to right, the end of the
  string included; the result is group 1 of the first match.
\<close>

fun re_search :: "ustring \<Rightarrow> ustring option" where
  "re_search [] = alternatives markers []"
| "re_search (c # cs) =
     (case alternatives markers (c # cs) of
        Some g \<Rightarrow> Some g
      | None \<Rightarrow> re_search cs)"

definition extract_destination :: "ustring \<Rightarrow> ustring" where
  "extract_destination text =
     (case re_search text of
        Some g \<Rightarrow> strip g
      | None \<Rightarrow> strip text)"

text \<open>
  A marker stands at the head of \<open>s\<close> and a class character follows it directly.
\<close>

definition marker_here :: "ustring \<Rightarrow> ustring \<Rightarrow> bool" where
  "marker_here m s \<longleftrightarrow> take (length m) s = m \<and> takeWhile in_class (drop (length m) s) \<noteq> []"



section \<open>The catalog\<close>

text \<open>
  A cell of the table that \<^verbatim>\<open>pandas.read_csv\<close> builds from the file: a string, or the
  missing-value marker \<^verbatim>\<open>NaN\<close> (a float) where the file has no value.
\<close>

datatype cell = Str ustring | NaN

record row =
  Name :: cell
  English_name :: cell
  Path :: cell

text \<open>
  The frame \<^verbatim>\<open>df\<close>: whether the file has an \<^verbatim>\<open>English_name\<close> column, and the rows.
  Without that column \<^verbatim>\<open>df.get("English_name", "")\<close> is the default \<^verbatim>\<open>""\<close>, and the
  field \<open>English_name\<close> of a row is not read.
\<close>

record frame =
  has_English_name :: bool
  rows :: "row list"

text \<open>
  \<^verbatim>\<open>df["Display_Name"] = df["Name"].fillna(df.get("English_name", ""))\<close>, the same
  line in both programs. \<^verbatim>\<open>fillna\<close> with a column fills a missing name from the same
  row of that column, missing or not; with the scalar \<^verbatim>\<open>""\<close> it fills with \<^verbatim>\<open>""\<close>.
\<close>

definition Display_Name :: "frame \<Rightarrow> row \<Rightarrow> cell" where
  "Display_Name df r =
     (case Name r of
        Str s \<Rightarrow> Str s
      | NaN \<Rightarrow> (if has_English_name df then English_name r else Str []))"

text \<open>The elementwise \<^verbatim>\<open>==\<close> of a column with a value: \<^verbatim>\<open>NaN\<close> equals nothing.\<close>

definition cell_eq :: "cell \<Rightarrow> cell \<Rightarrow> bool" where
  "cell_eq a b \<longleftrightarrow> a = b \<and> a \<noteq> NaN"

text \<open>\<^verbatim>\<open>str(v)\<close>, also what an f-string inserts for \<^verbatim>\<open>{v}\<close>: a float NaN reads \<^verbatim>\<open>nan\<close>.\<close>

definition py_str :: "cell \<Rightarrow> ustring" where
  "py_str v = (case v of Str s \<Rightarrow> s | NaN \<Rightarrow> [0x6E, 0x61, 0x6E])"

text \<open>\<^verbatim>\<open>not v\<close>: only the empty string is false; \<^verbatim>\<open>NaN\<close> is a nonzero float.\<close>

definition py_not :: "cell \<Rightarrow> bool" where
  "py_not v = (case v of Str s \<Rightarrow> s = [] | NaN \<Rightarrow> False)"

datatype error = TypeError | IndexError


section \<open>The fuzzy matcher of the fuzzywuzzy package\<close>

text \<open>
  Both programs call \<^verbatim>\<open>process.extractOne(query, choices)\<close> of the package
  \<^verbatim>\<open>fuzzywuzzy\<close>, with its default processor \<^verbatim>\<open>utils.full_process\<close> and its default
  scorer \<^verbatim>\<open>fuzz.WRatio\<close>. The package is not part of the repository. Its selection
  loop is transcribed here; the two parts of it that rest on the Unicode tables and on a
  sequence matcher stay parameters:
  \<^item> \<open>full_process force_ascii s\<close> is \<^verbatim>\<open>utils.full_process(s, force_ascii)\<close>, which
    replaces non-alphanumeric characters by blanks, lowers the case and strips;
  \<^item> \<open>ratios p1 p2\<close> is the value of \<^verbatim>\<open>fuzz.WRatio(p1, p2, full_process=False)\<close> on two
    non-empty strings: the rounded maximum of its weighted ratios.
\<close>

record fuzz =
  full_process :: "bool \<Rightarrow> ustring \<Rightarrow> ustring"
  ratios :: "ustring \<Rightarrow> ustring \<Rightarrow> int"

text \<open>\<^verbatim>\<open>utils.validate_string\<close>\<close>

definition validate_string :: "ustring \<Rightarrow> bool" where
  "validate_string s \<longleftrightarrow> length s > 0"

text \<open>\<^verbatim>\<open>fuzz.WRatio(p1, p2, full_process=False)\<close>: zero unless both strings are valid.\<close>

definition WRatio :: "fuzz \<Rightarrow> ustring \<Rightarrow> ustring \<Rightarrow> int" where
  "WRatio fz p1 p2 =
     (if \<not> validate_string p1 then 0
      else if \<not> validate_string p2 then 0
      else ratios fz p1 p2)"

text \<open>
  The score of one choice in \<^verbatim>\<open>process.extractWithoutOrder\<close>. The query goes through
  the processor and then through the scorer's own pre-processor, which forces ASCII; a
  choice goes through the pre-processor only, which first turns a value that is not a
  string into its \<^verbatim>\<open>str\<close>.
\<close>

definition choice_score :: "fuzz \<Rightarrow> ustring \<Rightarrow> cell \<Rightarrow> int" where
  "choice_score fz query choice =
     (let processed_query = full_process fz True (full_process fz False query);
          processed = full_process fz True (py_str choice)
      in WRatio fz processed_query processed)"

text \<open>
  \<^verbatim>\<open>process.extractWithoutOrder\<close> with \<^verbatim>\<open>score_cutoff = 0\<close>: the pairs
  \<^verbatim>\<open>(choice, score)\<close> whose score reaches the cutoff, in the order of the choices.
\<close>

definition extractWithoutOrder :: "fuzz \<Rightarrow> ustring \<Rightarrow> cell list \<Rightarrow> (cell \<times> int) list" where
  "extractWithoutOrder fz query choices =
     filter (\<lambda>(choice, score). score \<ge> 0)
       (map (\<lambda>choice. (choice, choice_score fz query choice)) choices)"

text \<open>
  \<^verbatim>\<open>max(best_list, key=lambda i: i[1])\<close>: a later pair replaces the current best only
  when its score is strictly greater, so the first of the best pairs is returned.
\<close>

fun max_by_score :: "cell \<times> int \<Rightarrow> (cell \<times> int) list \<Rightarrow> cell \<times> int" where
  "max_by_score best [] = best"
| "max_by_score best (x # xs) = max_by_score (if snd x > snd best then x else best) xs"

text \<open>
  \<^verbatim>\<open>process.extractOne\<close>: \<^verbatim>\<open>max\<close> raises \<^verbatim>\<open>ValueError\<close> on an empty sequence, which
  \<^verbatim>\<open>extractOne\<close> catches to return \<^verbatim>\<open>None\<close>.
\<close>

definition extractOne :: "fuzz \<Rightarrow> ustring \<Rightarrow> cell list \<Rightarrow> (cell \<times> int) option" where
  "extractOne fz query choices =
     (case extractWithoutOrder fz query choices of
        [] \<Rightarrow> None
      | x # xs \<Rightarrow> Some (max_by_score x xs))"


section \<open>The voice assistant\<close>

text \<open>\<^verbatim>\<open>names = df["Display_Name"].dropna().tolist()\<close>\<close>

definition names :: "frame \<Rightarrow> cell list" where
  "names df = filter (\<lambda>c. c \<noteq> NaN) (map (Display_Name df) (rows df))"

text \<open>
  \<^verbatim>\<open>find_best_match\<close>. Unpacking \<^verbatim>\<open>best, score = None\<close> raises \<^verbatim>\<open>TypeError\<close>;
  \<^verbatim>\<open>score or 0\<close> is \<^verbatim>\<open>score\<close> unless the score is zero.
\<close>

definition find_best_match :: "fuzz \<Rightarrow> frame \<Rightarrow> ustring \<Rightarrow> error + cell \<times> int" where
  "find_best_match fz df query =
     (case extractOne fz query (names df) of
        None \<Rightarrow> Inl TypeError
      | Some (best, score) \<Rightarrow> Inr (best, if score \<noteq> 0 then score else 0))"

text \<open>
  \<^verbatim>\<open>get_path\<close>: the \<^verbatim>\<open>Path\<close> cell of the first row whose display name equals the
  name, or \<^verbatim>\<open>""\<close> when no row has it.
\<close>

definition get_path :: "frame \<Rightarrow> cell \<Rightarrow> cell" where
  "get_path df nm =
     (case filter (\<lambda>r. cell_eq (Display_Name df r) nm) (rows df) of
        [] \<Rightarrow> Str []
      | r # _ \<Rightarrow> Path r)"

text \<open>The wake word and the four sentences of \<^verbatim>\<open>main\<close>.\<close>

definition WAKE_WORD :: ustring where
  "WAKE_WORD = [0x633, 0x631, 0x627, 0x62C]"

definition msg_ask :: ustring where
  "msg_ask = [0x62A, 0x641, 0x636, 0x644, 0x60C, 0x20, 0x645, 0x627, 0x20, 0x633, 0x624, 0x627,
     0x644, 0x643, 0x61F]"

definition msg_not_recognised :: ustring where
  "msg_not_recognised = [0x639, 0x630, 0x631, 0x627, 0x64B, 0x60C, 0x20, 0x644, 0x645, 0x20,
     0x623, 0x62A, 0x639, 0x631, 0x641, 0x20, 0x639, 0x644, 0x649, 0x20, 0x627, 0x633, 0x645,
     0x20, 0x627, 0x644, 0x645, 0x637, 0x639, 0x645, 0x2E, 0x20, 0x62D, 0x627, 0x648, 0x644,
     0x20, 0x645, 0x631, 0x629, 0x20, 0x623, 0x62E, 0x631, 0x649, 0x2E]"

definition msg_no_directions :: ustring where
  "msg_no_directions = [0x644, 0x644, 0x623, 0x633, 0x641, 0x20, 0x644, 0x627, 0x20, 0x62A,
     0x648, 0x62C, 0x62F, 0x20, 0x62A, 0x648, 0x62C, 0x64A, 0x647, 0x627, 0x62A, 0x20, 0x645,
     0x62A, 0x648, 0x641, 0x631, 0x629, 0x20, 0x644, 0x647, 0x630, 0x647, 0x20, 0x627, 0x644,
     0x648, 0x62C, 0x647, 0x629, 0x2E]"

definition msg_route :: "cell \<Rightarrow> cell \<Rightarrow> ustring" where
  "msg_route best path =
     [0x623, 0x642, 0x631, 0x628, 0x20, 0x645, 0x633, 0x627, 0x631, 0x20, 0x644, 0x645, 0x637,
      0x639, 0x645, 0x20] @ py_str best @ [0x20, 0x647, 0x648, 0x3A, 0x20] @ py_str path"

text \<open>
  What one run of the loop does that a listener or the catalog can observe: a sentence
  handed to the speech synthesiser, and a call of \<^verbatim>\<open>get_path\<close>.
\<close>

datatype event = Speak ustring | Lookup cell

text \<open>\<^verbatim>\<open>azure_speak\<close> returns at once on an empty text.\<close>

definition azure_speak :: "ustring \<Rightarrow> event list" where
  "azure_speak text = (if text = [] then [] else [Speak text])"

text \<open>
  Steps 3 and 4 of the loop body, from the transcribed question on: the events in order,
  or the exception that leaves \<^verbatim>\<open>main\<close>.
\<close>

definition answer :: "fuzz \<Rightarrow> frame \<Rightarrow> ustring \<Rightarrow> error + event list" where
  "answer fz df question =
     (let dest_raw = extract_destination question in
      case find_best_match fz df dest_raw of
        Inl e \<Rightarrow> Inl e
      | Inr (best, score) \<Rightarrow>
          if score < 60 then Inr (azure_speak msg_not_recognised)
          else
            (let path = get_path df best in
             if py_not path then Inr (Lookup best # azure_speak msg_no_directions)
             else Inr (Lookup best # azure_speak (msg_route best path))))"

text \<open>
  One pass through the body of \<^verbatim>\<open>while True\<close>, given what the two recordings are
  transcribed to: the events of the pass, and the exception if one ends the program.
\<close>

definition loop_body :: "fuzz \<Rightarrow> frame \<Rightarrow> ustring \<Rightarrow> ustring \<Rightarrow> event list \<times> error option" where
  "loop_body fz df text question =
     (if str_contains text WAKE_WORD then
        (case answer fz df question of
           Inl e \<Rightarrow> (azure_speak msg_ask, Some e)
         | Inr evs \<Rightarrow> (azure_speak msg_ask @ evs, None))
      else ([], None))"


section \<open>The route lookup of the flow handler\<close>

text \<open>
  \<^verbatim>\<open>lookup_route\<close> of the second program: the exact lookup first, then the best fuzzy
  candidate among all display names when its score reaches 60. \<^verbatim>\<open>iloc[0]\<close> on an empty
  selection raises \<^verbatim>\<open>IndexError\<close>.
\<close>

definition lookup_route :: "fuzz \<Rightarrow> frame \<Rightarrow> ustring \<Rightarrow> error + cell" where
  "lookup_route fz df restaurant_name =
     (case filter (\<lambda>r. cell_eq (Display_Name df r) (Str restaurant_name)) (rows df) of
        r # _ \<Rightarrow> Inr (Path r)
      | [] \<Rightarrow>
          (case extractOne fz restaurant_name (map (Display_Name df) (rows df)) of
             None \<Rightarrow> Inl TypeError
           | Some (best, score) \<Rightarrow>
               if score \<ge> 60 then
                 (case filter (\<lambda>r. cell_eq (Display_Name df r) best) (rows df) of
                    [] \<Rightarrow> Inl IndexError
                  | r # _ \<Rightarrow> Inr (Path r))
               else Inr (Str [])))"

text \<open>
  An instance of the two parameters of the matcher, to evaluate the programs at concrete
  inputs: the processor only strips, and two strings score 100 when they are equal and 0
  otherwise. It agrees with the package wherever the processed strings are equal or one
  of them is empty, on names of letters and single blanks that have no upper case.
\<close>

definition plain_fuzz :: fuzz where
  "plain_fuzz = \<lparr>full_process = (\<lambda>force_ascii s. strip s),
                 ratios = (\<lambda>p1 p2. if p1 = p2 then 100 else 0)\<rparr>"


section \<open>A catalog of one restaurant\<close>

text \<open>
  The catalog of the end-to-end scenarios: one restaurant, whose name is the two words
  U+0645 U+0637 U+0639 U+0645 and U+0627 U+0644 U+062F U+064A U+0648 U+0627 U+0646, with a
  route of three words; the file has no \<^verbatim>\<open>English_name\<close> column.
\<close>

definition al_diwan :: ustring where
  "al_diwan = [0x645, 0x637, 0x639, 0x645, 0x20, 0x627, 0x644, 0x62F, 0x64A, 0x648, 0x627, 0x646]"

definition left_then_right :: ustring where
  "left_then_right = [0x64A, 0x633, 0x627, 0x631, 0x20, 0x62B, 0x645, 0x20, 0x64A, 0x645, 0x64A, 0x646]"

definition one_restaurant :: frame where
  "one_restaurant =
     \<lparr>has_English_name = False,
      rows = [\<lparr>Name = Str al_diwan, English_name = NaN, Path = Str left_then_right\<rparr>]\<rparr>"


section \<open>Properties of the name extractor\<close>

subsection \<open>Blanks and the capturing group\<close>

lemma isspace_in_class: "isspace c \<Longrightarrow> in_class c"
  by (simp add: in_class_def)

lemma strip_blanks_prefix: "\<forall>c\<in>set ws. isspace c \<Longrightarrow> strip (ws @ s) = strip s"
  by (simp add: strip_def dropWhile_append2)

lemma strip_all_blanks: "\<forall>c\<in>set ws. isspace c \<Longrightarrow> strip ws = []"
proof -
  assume "\<forall>c\<in>set ws. isspace c"
  then have d: "dropWhile isspace ws = []" by (metis dropWhile_eq_Nil_conv)
  show ?thesis by (simp only: strip_def d rev.simps dropWhile.simps)
qed

lemma takeWhile_class_drop:
  assumes "k \<le> length (takeWhile isspace s)"
  shows "takeWhile in_class (drop k s) = drop k (takeWhile in_class s)"
    and "\<forall>c\<in>set (take k s). isspace c"
proof -
  have "take k s = take k (takeWhile isspace s)"
    using assms by (metis takeWhile_dropWhile_id min.absorb2 append_eq_conv_conj min.commute take_take)
  then show b: "\<forall>c\<in>set (take k s). isspace c"
    by (metis in_set_takeD set_takeWhileD)
  then have "takeWhile in_class (take k s @ drop k s) = take k s @ takeWhile in_class (drop k s)"
    by (intro takeWhile_append2) (simp add: isspace_in_class)
  then have "takeWhile in_class s = take k s @ takeWhile in_class (drop k s)" by simp
  moreover have "length (take k s) = k" using assms
    by (metis (no_types) length_take min.absorb2 length_takeWhile_le order_trans)
  ultimately show "takeWhile in_class (drop k s) = drop k (takeWhile in_class s)"
    by (metis append_eq_conv_conj)
qed

lemma blanks_then_group_Some:
  "k \<le> length (takeWhile isspace s) \<Longrightarrow> blanks_then_group k s = Some g \<Longrightarrow>
     strip g = strip (takeWhile in_class s)"
proof (induction k)
  case 0
  then show ?case by (simp add: group1_def Let_def split: if_splits)
next
  case (Suc k)
  show ?case
  proof (cases "group1 (drop (Suc k) s)")
    case None
    with Suc show ?thesis by simp
  next
    case (Some g')
    with Suc.prems have g: "g = takeWhile in_class (drop (Suc k) s)"
      by (auto simp: group1_def Let_def split: if_splits)
    have d: "takeWhile in_class (drop (Suc k) s) = drop (Suc k) (takeWhile in_class s)"
      and b: "\<forall>c\<in>set (take (Suc k) s). isspace c"
      using takeWhile_class_drop [OF Suc.prems(1)] by blast+
    have "take (Suc k) (takeWhile in_class s) = take (Suc k) s"
      by (metis b isspace_in_class append_take_drop_id takeWhile_append2 append_eq_conv_conj length_take min.absorb2 Suc.prems(1) length_takeWhile_le order_trans)
    then have "takeWhile in_class s = take (Suc k) s @ g"
      using g d by (metis append_take_drop_id)
    then show ?thesis using b strip_blanks_prefix by metis
  qed
qed

lemma blanks_then_group_None:
  "blanks_then_group k s = None \<Longrightarrow> takeWhile in_class s = []"
  by (induction k) (auto simp: group1_def Let_def split: if_splits option.splits)

lemma after_marker_None_iff: "after_marker s = None \<longleftrightarrow> takeWhile in_class s = []"
proof
  assume "after_marker s = None"
  then show "takeWhile in_class s = []"
    unfolding after_marker_def by (rule blanks_then_group_None)
next
  assume a: "takeWhile in_class s = []"
  then have "takeWhile isspace s = []"
    by (cases s) (auto simp: isspace_in_class split: if_splits)
  with a show "after_marker s = None"
    by (simp add: after_marker_def group1_def)
qed

lemma after_marker_Some:
  "after_marker s = Some g \<Longrightarrow> strip g = strip (takeWhile in_class s)"
  unfolding after_marker_def by (rule blanks_then_group_Some) simp_all


subsection \<open>The alternation and the search\<close>

lemma marker_nonempty: "m \<in> set markers \<Longrightarrow> m \<noteq> []"
  by (auto simp: markers_def)

lemma marker_here_lam:
  "m \<in> set markers \<Longrightarrow> marker_here m s \<Longrightarrow> lam \<in> set s"
proof -
  assume m: "m \<in> set markers" and h: "marker_here m s"
  then have "lam \<in> set m" by (auto simp: markers_def)
  moreover have "set m \<subseteq> set s" using h
    by (metis marker_here_def set_take_subset)
  ultimately show ?thesis by blast
qed

lemma alternative_None_iff:
  "(if take (length m) s = m then after_marker (drop (length m) s) else None) = None
     \<longleftrightarrow> \<not> marker_here m s"
  by (simp add: marker_here_def after_marker_None_iff)

lemma alternatives_None_iff:
  "alternatives ms s = None \<longleftrightarrow> (\<forall>m\<in>set ms. \<not> marker_here m s)"
proof (induction ms)
  case Nil
  then show ?case by simp
next
  case (Cons a ms)
  have "alternatives (a # ms) s = None \<longleftrightarrow>
    (if take (length a) s = a then after_marker (drop (length a) s) else None) = None
      \<and> alternatives ms s = None"
    by (simp split: option.splits)
  then show ?case using Cons.IH alternative_None_iff [of a s] by simp
qed

lemma alternatives_Some:
  "alternatives ms s = Some g \<Longrightarrow>
     \<exists>ms1 m ms2. ms = ms1 @ m # ms2 \<and> (\<forall>m'\<in>set ms1. \<not> marker_here m' s) \<and> marker_here m s \<and>
       strip g = strip (takeWhile in_class (drop (length m) s))"
proof (induction ms)
  case Nil
  then show ?case by simp
next
  case (Cons a ms)
  show ?case
  proof (cases "marker_here a s")
    case True
    then have "after_marker (drop (length a) s) \<noteq> None"
      by (simp add: marker_here_def after_marker_None_iff)
    then obtain g' where g': "after_marker (drop (length a) s) = Some g'" by blast
    with True Cons.prems have "g = g'" by (simp add: marker_here_def)
    with g' have "strip g = strip (takeWhile in_class (drop (length a) s))"
      by (simp add: after_marker_Some)
    with True show ?thesis by (intro exI [of _ "[]"] exI [of _ a] exI [of _ ms]) simp
  next
    case False
    then have "(if take (length a) s = a then after_marker (drop (length a) s) else None) = None"
      by (auto simp: marker_here_def after_marker_None_iff)
    with Cons.prems have "alternatives ms s = Some g" by simp
    from Cons.IH [OF this] obtain ms1 m ms2 where
      "ms = ms1 @ m # ms2" "\<forall>m'\<in>set ms1. \<not> marker_here m' s" "marker_here m s"
      "strip g = strip (takeWhile in_class (drop (length m) s))" by blast
    with False show ?thesis
      by (intro exI [of _ "a # ms1"] exI [of _ m] exI [of _ ms2]) simp
  qed
qed

lemma re_search_None:
  "lam \<notin> set s \<Longrightarrow> re_search s = None"
proof (induction s)
  case Nil
  then show ?case by (simp add: markers_def)
next
  case (Cons c cs)
  have "alternatives markers (c # cs) = None"
    using Cons.prems marker_here_lam alternatives_None_iff by blast
  with Cons show ?case by simp
qed

lemma re_search_skip:
  "\<forall>j<i. \<forall>m\<in>set markers. \<not> marker_here m (drop j s) \<Longrightarrow> i \<le> length s \<Longrightarrow>
     re_search s = re_search (drop i s)"
proof (induction i arbitrary: s)
  case 0
  then show ?case by simp
next
  case (Suc i)
  then obtain c cs where s: "s = c # cs" by (cases s) auto
  from Suc.prems(1) have "\<forall>m\<in>set markers. \<not> marker_here m (drop 0 s)" by blast
  then have "alternatives markers s = None" by (simp add: alternatives_None_iff)
  then have "re_search s = re_search cs" by (simp add: s)
  moreover have "\<forall>j<i. \<forall>m\<in>set markers. \<not> marker_here m (drop j cs)"
  proof (intro allI impI)
    fix j assume "j < i"
    then have "Suc j < Suc i" by simp
    with Suc.prems(1) have "\<forall>m\<in>set markers. \<not> marker_here m (drop (Suc j) s)" by blast
    then show "\<forall>m\<in>set markers. \<not> marker_here m (drop j cs)" by (simp add: s)
  qed
  moreover have "i \<le> length cs" using Suc.prems(2) s by simp
  ultimately show ?case using Suc.IH [of cs] by (simp add: s)
qed

lemma re_search_here:
  "alternatives markers s = Some g \<Longrightarrow> re_search s = Some g"
  by (cases s) simp_all

lemma extract_at_first_marker:
  assumes m: "m \<in> set markers"
    and here: "marker_here m (drop i text)"
    and first: "\<forall>j<i. \<forall>m'\<in>set markers. \<not> marker_here m' (drop j text)"
    and longer: "m = [lam] \<longrightarrow> \<not> marker_here [lam, tatweel] (drop i text)"
  shows "extract_destination text = strip (takeWhile in_class (drop (i + length m) text))"
proof -
  let ?s = "drop i text"
  have "?s \<noteq> []" using here m by (auto simp: marker_here_def markers_def)
  then have i: "i \<le> length text" by simp
  have "alternatives markers ?s \<noteq> None"
    using m here by (auto simp: alternatives_None_iff)
  then obtain g where g: "alternatives markers ?s = Some g" by blast
  from alternatives_Some [OF this] obtain ms1 m' ms2 where
    ms: "markers = ms1 @ m' # ms2" and none: "\<forall>a\<in>set ms1. \<not> marker_here a ?s"
    and h': "marker_here m' ?s"
    and sg: "strip g = strip (takeWhile in_class (drop (length m') ?s))" by blast
  have "m' = m"
  proof (rule ccontr)
    assume ne: "m' \<noteq> m"
    have mm: "take (length m) ?s = m" "take (length m') ?s = m'"
      using here h' by (simp_all add: marker_here_def)
    have hd: "hd m = hd ?s" "hd m' = hd ?s"
      using mm m ms by (metis hd_take length_greater_0_conv take_eq_Nil list.size(3) take0 \<open>?s \<noteq> []\<close> marker_nonempty in_set_conv_decomp)+
    from ms have "(ms1 = [] \<and> m' = [0x625, lam, 0x649]) \<or> (ms1 = [[0x625, lam, 0x649]] \<and> m' = [lam, tatweel])
       \<or> (ms1 = [[0x625, lam, 0x649], [lam, tatweel]] \<and> m' = [lam])"
      by (auto simp: markers_def Cons_eq_append_conv)
    moreover from m have "m = [0x625, lam, 0x649] \<or> m = [lam, tatweel] \<or> m = [lam]"
      by (simp add: markers_def)
    ultimately show False
      using ne hd none here h' longer by (auto simp: lam_def)

  qed
  have "re_search text = Some g"
    using re_search_skip [OF first i] re_search_here [OF g] by simp
  then show ?thesis using sg \<open>m' = m\<close>
    by (simp add: extract_destination_def add.commute)
qed


subsection \<open>Utterances without a marker\<close>

lemma str_contains_single: "str_contains s [c] \<longleftrightarrow> c \<in> set s"
  by (induction s) auto

text \<open>
  Claim C2, as amended. Every marker contains the letter lam, and the letter alone is a
  marker. An utterance in which none of the three markers occurs is returned whole, with
  the surrounding blanks removed.
\<close>

theorem extract_destination_no_marker:
  assumes "\<forall>m\<in>set markers. \<not> str_contains text m"
  shows "extract_destination text = strip text"
proof -
  have "[lam] \<in> set markers" by (simp add: markers_def)
  with assms have "\<not> str_contains text [lam]" by blast
  then have "lam \<notin> set text" by (simp add: str_contains_single)
  then have "re_search text = None" by (rule re_search_None)
  then show ?thesis by (simp add: extract_destination_def)
qed

text \<open>The utterance U+0020 U+0645 U+0637 U+0639 U+0645 U+0020 has no marker and loses its two blanks.\<close>

theorem extract_destination_no_marker_witness:
  "\<not> str_contains [0x20, 0x645, 0x637, 0x639, 0x645, 0x20] [0x625, lam, 0x649] \<and>
   \<not> str_contains [0x20, 0x645, 0x637, 0x639, 0x645, 0x20] [lam, tatweel] \<and>
   \<not> str_contains [0x20, 0x645, 0x637, 0x639, 0x645, 0x20] [lam] \<and>
   extract_destination [0x20, 0x645, 0x637, 0x639, 0x645, 0x20] = [0x645, 0x637, 0x639, 0x645]"
proof -
  have h: "\<forall>m\<in>set markers. \<not> str_contains [0x20, 0x645, 0x637, 0x639, 0x645, 0x20] m"
    by (simp add: markers_def lam_def tatweel_def)
  show ?thesis
    using h extract_destination_no_marker [OF h] by (simp add: strip_def isspace_def markers_def)
qed

text \<open>
  Claim C2 as stated names the utterance of the two words U+0645 U+0637 U+0639 U+0645 and
  U+0627 U+0644 U+062F U+064A U+0648 U+0627 U+0646 as one without a marker. The second
  letter of its second word is lam, which the pattern accepts as a marker wherever it
  stands, so the result is the rest of that word and not the utterance.
\<close>

theorem extract_destination_restaurant_name_counterexample:
  "extract_destination [0x645, 0x637, 0x639, 0x645, 0x20, 0x627, 0x644, 0x62F, 0x64A, 0x648, 0x627, 0x646]
     \<noteq> [0x645, 0x637, 0x639, 0x645, 0x20, 0x627, 0x644, 0x62F, 0x64A, 0x648, 0x627, 0x646] \<and>
   extract_destination [0x645, 0x637, 0x639, 0x645, 0x20, 0x627, 0x644, 0x62F, 0x64A, 0x648, 0x627, 0x646]
     = [0x62F, 0x64A, 0x648, 0x627, 0x646]"
  by (simp add: extract_destination_def markers_def lam_def tatweel_def after_marker_def group1_def
      in_class_def isspace_def strip_def)

subsection \<open>The run behind the first marker\<close>

text \<open>
  Claim C6. Let a marker stand in the utterance behind \<open>pre\<close>, directly followed by a
  character \<open>c\<close> of the class of the capturing group (the Arabic block and the blanks), let
  no marker be followed by such a character at an earlier position, and let the two-letter
  marker win over the bare lam where both fit. Then the result is the longest run of class
  characters behind the marker, stripped.
\<close>

theorem extract_destination_after_first_marker:
  assumes "m \<in> set markers"
    and "text = pre @ m @ c # rest"
    and "in_class c"
    and "\<forall>j<length pre. \<forall>m'\<in>set markers. \<not> marker_here m' (drop j text)"
    and "m = [lam] \<longrightarrow> \<not> marker_here [lam, tatweel] (drop (length pre) text)"
  shows "extract_destination text = strip (takeWhile in_class (c # rest))"
proof -
  have "marker_here m (drop (length pre) text)"
    using assms(2,3) by (simp add: marker_here_def)
  from extract_at_first_marker [OF assms(1) this assms(4,5)]
  show ?thesis using assms(2) by simp
qed

text \<open>
  The utterance of claim C6: the marker U+0625 U+0644 U+0649 behind the first word and a
  blank, and the two words of the restaurant name behind it.
\<close>

theorem extract_destination_after_first_marker_witness:
  "[0x625, lam, 0x649] \<in> set markers \<and> in_class 0x20 \<and>
   extract_destination [0x62E, 0x630, 0x646, 0x64A, 0x20, 0x625, 0x644, 0x649, 0x20,
       0x645, 0x637, 0x639, 0x645, 0x20, 0x627, 0x644, 0x62F, 0x64A, 0x648, 0x627, 0x646]
     = [0x645, 0x637, 0x639, 0x645, 0x20, 0x627, 0x644, 0x62F, 0x64A, 0x648, 0x627, 0x646]"
proof -
  let ?pre = "[0x62E, 0x630, 0x646, 0x64A, 0x20::nat]"
  let ?m = "[0x625, lam, 0x649]"
  let ?rest = "[0x645, 0x637, 0x639, 0x645, 0x20, 0x627, 0x644, 0x62F, 0x64A, 0x648, 0x627, 0x646::nat]"
  let ?text = "?pre @ ?m @ 0x20 # ?rest"
  have m: "?m \<in> set markers" by (simp add: markers_def)
  have c: "in_class 0x20" by (simp add: in_class_def isspace_def)
  have first: "\<forall>j<length ?pre. \<forall>m'\<in>set markers. \<not> marker_here m' (drop j ?text)"
  proof (intro allI impI)
    fix j :: nat
    assume "j < length ?pre"
    then have "j = 0 \<or> j = 1 \<or> j = 2 \<or> j = 3 \<or> j = 4" by auto
    then show "\<forall>m'\<in>set markers. \<not> marker_here m' (drop j ?text)"
      by (elim disjE) (simp_all add: markers_def marker_here_def lam_def tatweel_def)
  qed
  have longer: "?m = [lam] \<longrightarrow> \<not> marker_here [lam, tatweel] (drop (length ?pre) ?text)"
    by simp
  have "extract_destination ?text = strip (takeWhile in_class (0x20 # ?rest))"
    using extract_destination_after_first_marker [OF m refl c first longer] .
  then show ?thesis
    using m c by (simp add: in_class_def isspace_def strip_def lam_def)
qed

subsection \<open>A marker with nothing behind it\<close>

text \<open>
  Claim C7, as amended. When the first marker is followed by at least one blank and no
  other class character comes behind the blanks, the match captures blanks only and the
  result is the empty string.
\<close>

theorem extract_destination_marker_then_blanks:
  assumes "m \<in> set markers"
    and "text = pre @ m @ ws @ rest"
    and "ws \<noteq> []" and "\<forall>c\<in>set ws. isspace c"
    and "takeWhile in_class rest = []"
    and "\<forall>j<length pre. \<forall>m'\<in>set markers. \<not> marker_here m' (drop j text)"
  shows "extract_destination text = []"
proof -
  have cls: "\<forall>c\<in>set ws. in_class c" using assms(4) by (simp add: isspace_in_class)
  then have run: "takeWhile in_class (ws @ rest) = ws"
    using assms(5) by (simp add: takeWhile_append2)
  have here: "marker_here m (drop (length pre) text)"
    using assms(2,3) run by (simp add: marker_here_def)
  obtain w ws' where ws: "ws = w # ws'" using assms(3) by (cases ws) auto
  then have "isspace w" using assms(4) by simp
  then have "w \<noteq> tatweel" by (auto simp: isspace_def tatweel_def)
  then have longer: "m = [lam] \<longrightarrow> \<not> marker_here [lam, tatweel] (drop (length pre) text)"
    using assms(2) ws by (simp add: marker_here_def)
  from extract_at_first_marker [OF assms(1) here assms(6) longer]
  have "extract_destination text = strip ws" using assms(2) run by simp
  then show ?thesis using assms(4) by (simp add: strip_all_blanks)
qed

text \<open>The marker behind a word, then one blank and an exclamation mark.\<close>

theorem extract_destination_marker_then_blanks_witness:
  "[0x625, lam, 0x649] \<in> set markers \<and> isspace 0x20 \<and> takeWhile in_class [0x21] = [] \<and>
   extract_destination [0x62E, 0x630, 0x646, 0x64A, 0x20, 0x625, 0x644, 0x649, 0x20, 0x21] = []"
proof -
  let ?pre = "[0x62E, 0x630, 0x646, 0x64A, 0x20::nat]"
  let ?m = "[0x625, lam, 0x649]"
  let ?text = "?pre @ ?m @ [0x20] @ [0x21]"
  have m: "?m \<in> set markers" by (simp add: markers_def)
  have ws: "[0x20::nat] \<noteq> []" "\<forall>c\<in>set [0x20]. isspace c" by (simp_all add: isspace_def)
  have rest: "takeWhile in_class [0x21] = []" by (simp add: in_class_def isspace_def)
  have first: "\<forall>j<length ?pre. \<forall>m'\<in>set markers. \<not> marker_here m' (drop j ?text)"
  proof (intro allI impI)
    fix j :: nat
    assume "j < length ?pre"
    then have "j = 0 \<or> j = 1 \<or> j = 2 \<or> j = 3 \<or> j = 4" by auto
    then show "\<forall>m'\<in>set markers. \<not> marker_here m' (drop j ?text)"
      by (elim disjE) (simp_all add: markers_def marker_here_def lam_def tatweel_def)
  qed
  have "extract_destination ?text = []"
    using extract_destination_marker_then_blanks [OF m refl ws rest first] .
  then show ?thesis
    using m ws rest by (simp add: lam_def)
qed

text \<open>
  Claim C7 as stated fails when nothing at all follows the marker: the pattern needs one
  class character behind a marker, so the three-letter marker at the end of the utterance
  does not match, its second letter lam matches one position later, and the result is the
  last letter of the marker.
\<close>

theorem extract_destination_marker_at_end_counterexample:
  "str_contains [0x62E, 0x630, 0x646, 0x64A, 0x20, 0x625, 0x644, 0x649] [0x625, 0x644, 0x649] \<and>
   extract_destination [0x62E, 0x630, 0x646, 0x64A, 0x20, 0x625, 0x644, 0x649] \<noteq> [] \<and>
   extract_destination [0x62E, 0x630, 0x646, 0x64A, 0x20, 0x625, 0x644, 0x649] = [0x649]"
  by (simp add: extract_destination_def markers_def lam_def tatweel_def after_marker_def group1_def
      in_class_def isspace_def strip_def)


section \<open>Properties of the resolver, the lookups and the loop\<close>

subsection \<open>The best pair\<close>

lemma max_by_score_mem: "max_by_score b xs \<in> set (b # xs)"
  by (induction xs arbitrary: b) (simp, force)

lemma max_by_score_ge_all: "\<forall>y\<in>set (b # xs). snd y \<le> snd (max_by_score b xs)"
proof (induction xs arbitrary: b)
  case Nil
  then show ?case by simp
next
  case (Cons x xs)
  let ?b = "if snd x > snd b then x else b"
  have "snd b \<le> snd ?b" "snd x \<le> snd ?b" by simp_all
  moreover have "\<forall>y\<in>set (?b # xs). snd y \<le> snd (max_by_score ?b xs)" by (rule Cons.IH)
  ultimately show ?case by fastforce
qed

lemma max_by_score_ge: "y \<in> set (b # xs) \<Longrightarrow> snd y \<le> snd (max_by_score b xs)"
  using max_by_score_ge_all by blast

lemma find_map_list: "List.find P (map f xs) = map_option f (List.find (P \<circ> f) xs)"
  by (induction xs) simp_all

lemma max_by_score_first:
  "List.find (\<lambda>y. snd y = snd (max_by_score b xs)) (b # xs) = Some (max_by_score b xs)"
proof (induction xs arbitrary: b)
  case Nil
  then show ?case by simp
next
  case (Cons x xs)
  let ?b = "if snd x > snd b then x else b"
  let ?r = "max_by_score ?b xs"
  have r: "max_by_score b (x # xs) = ?r" by simp
  have ih: "List.find (\<lambda>y. snd y = snd ?r) (?b # xs) = Some ?r" by (rule Cons.IH)
  have ge: "snd ?b \<le> snd ?r" by (rule max_by_score_ge) simp
  show ?case
  proof (cases "snd x > snd b")
    case True
    with ge have "snd b \<noteq> snd ?r" by simp
    with True ih show ?thesis by (simp only: r) simp
  next
    case False
    show ?thesis
    proof (cases "snd b = snd ?r")
      case True
      with False ih show ?thesis by (simp only: r) simp
    next
      case nb: False
      with False ge have "snd x \<noteq> snd ?r" by simp
      with False nb ih show ?thesis by (simp only: r) simp
    qed
  qed
qed

subsection \<open>Scores\<close>

lemma WRatio_range:
  "\<forall>p1 p2. 0 \<le> ratios fz p1 p2 \<and> ratios fz p1 p2 \<le> 100 \<Longrightarrow>
     0 \<le> WRatio fz p q \<and> WRatio fz p q \<le> 100"
  by (simp add: WRatio_def)

lemma choice_score_range:
  "\<forall>p1 p2. 0 \<le> ratios fz p1 p2 \<and> ratios fz p1 p2 \<le> 100 \<Longrightarrow>
     0 \<le> choice_score fz query c \<and> choice_score fz query c \<le> 100"
  by (simp add: choice_score_def Let_def WRatio_range)

lemma extractWithoutOrder_all:
  assumes "\<forall>p1 p2. 0 \<le> ratios fz p1 p2 \<and> ratios fz p1 p2 \<le> 100"
  shows "extractWithoutOrder fz query choices = map (\<lambda>c. (c, choice_score fz query c)) choices"
proof -
  have "\<forall>x\<in>set (map (\<lambda>c. (c, choice_score fz query c)) choices). (\<lambda>(choice, score). score \<ge> 0) x"
    using choice_score_range [OF assms] by auto
  then show ?thesis by (simp add: extractWithoutOrder_def filter_id_conv)
qed

lemma extractOne_empty: "extractOne fz query [] = None"
  by (simp add: extractOne_def extractWithoutOrder_def)

lemma extractOne_best:
  assumes "\<forall>p1 p2. 0 \<le> ratios fz p1 p2 \<and> ratios fz p1 p2 \<le> 100"
    and "choices \<noteq> []"
  shows "\<exists>best. extractOne fz query choices = Some (best, choice_score fz query best) \<and>
           best \<in> set choices \<and>
           (\<forall>c\<in>set choices. choice_score fz query c \<le> choice_score fz query best) \<and>
           List.find (\<lambda>c. choice_score fz query c = choice_score fz query best) choices = Some best"
proof -
  let ?f = "\<lambda>c. (c, choice_score fz query c)"
  obtain c cs where ch: "choices = c # cs" using assms(2) by (cases choices) auto
  let ?r = "max_by_score (?f c) (map ?f cs)"
  have one: "extractOne fz query choices = Some ?r"
    by (simp add: extractOne_def extractWithoutOrder_all [OF assms(1)] ch)
  have "?r \<in> set (map ?f choices)" using max_by_score_mem [of "?f c" "map ?f cs"] by (simp add: ch)
  then obtain best where best: "best \<in> set choices" "?r = ?f best" by auto
  have ge: "\<forall>c'\<in>set choices. choice_score fz query c' \<le> choice_score fz query best"
  proof
    fix c' assume "c' \<in> set choices"
    then have "?f c' \<in> set (?f c # map ?f cs)" by (auto simp: ch)
    from max_by_score_ge [OF this] show "choice_score fz query c' \<le> choice_score fz query best"
      by (simp add: best(2))
  qed
  have "List.find (\<lambda>y. snd y = snd ?r) (map ?f choices) = Some ?r"
    using max_by_score_first [of "?f c" "map ?f cs"] by (simp only: ch list.map)
  then have "map_option ?f (List.find ((\<lambda>y. snd y = snd ?r) \<circ> ?f) choices) = Some (?f best)"
    by (simp add: find_map_list best(2))
  then have "List.find (\<lambda>c. choice_score fz query c = choice_score fz query best) choices = Some best"
    by (auto simp: comp_def best(2))
  with one best ge show ?thesis by auto
qed


subsection \<open>Resolving against a catalog without display names\<close>

lemma names_Str: "c \<in> set (names df) \<Longrightarrow> \<exists>nm. c = Str nm \<and> Str nm \<in> Display_Name df ` set (rows df)"
  by (cases c) (auto simp: names_def)

text \<open>
  Claim C1. With no row in the table, \<^verbatim>\<open>extractOne\<close> has nothing to choose from and
  returns \<^verbatim>\<open>None\<close>; \<^verbatim>\<open>find_best_match\<close> unpacks the result as a pair and raises
  \<^verbatim>\<open>TypeError\<close>, whatever the query is.
\<close>

theorem find_best_match_empty_catalog:
  "find_best_match fz \<lparr>has_English_name = h, rows = []\<rparr> query = Inl TypeError"
  by (simp add: find_best_match_def names_def extractOne_empty)

subsection \<open>Resolving against a catalog with display names\<close>

text \<open>
  Claim C3. Let the weighted ratio of the package lie between 0 and 100, and let the
  catalog have at least one display name. Then \<^verbatim>\<open>find_best_match\<close> returns, for every
  query, a display name of the catalog and a score between 0 and 100.
\<close>

theorem find_best_match_name_and_score:
  assumes "\<forall>p1 p2. 0 \<le> ratios fz p1 p2 \<and> ratios fz p1 p2 \<le> 100"
    and "names df \<noteq> []"
  shows "\<exists>nm score. find_best_match fz df query = Inr (Str nm, score) \<and>
           0 \<le> score \<and> score \<le> 100 \<and> Str nm \<in> Display_Name df ` set (rows df)"
proof -
  from extractOne_best [OF assms, of query] obtain best where
    one: "extractOne fz query (names df) = Some (best, choice_score fz query best)"
    and mem: "best \<in> set (names df)" by blast
  from names_Str [OF mem] obtain nm where
    nm: "best = Str nm" "Str nm \<in> Display_Name df ` set (rows df)" by blast
  have "find_best_match fz df query = Inr (Str nm, choice_score fz query best)"
    using one nm(1) by (simp add: find_best_match_def)
  with choice_score_range [OF assms(1), of query best] nm(2) show ?thesis by blast
qed

theorem find_best_match_name_and_score_witness:
  "(\<forall>p1 p2. 0 \<le> ratios plain_fuzz p1 p2 \<and> ratios plain_fuzz p1 p2 \<le> 100) \<and>
   names one_restaurant \<noteq> [] \<and>
   (\<exists>nm score. find_best_match plain_fuzz one_restaurant al_diwan = Inr (Str nm, score) \<and>
      0 \<le> score \<and> score \<le> 100 \<and> Str nm \<in> Display_Name one_restaurant ` set (rows one_restaurant))"
proof -
  have r: "\<forall>p1 p2. 0 \<le> ratios plain_fuzz p1 p2 \<and> ratios plain_fuzz p1 p2 \<le> 100"
    by (simp add: plain_fuzz_def)
  have n: "names one_restaurant \<noteq> []"
    by (simp add: names_def one_restaurant_def Display_Name_def)
  show ?thesis
    using r n find_best_match_name_and_score [OF r n, of al_diwan] by blast
qed

subsection \<open>Resolving a display name\<close>

text \<open>
  Claim C4, as amended. Let the weighted ratio lie between 0 and 100 and be 100 on two
  equal strings. Let the query be a display name of the catalog that the package processes
  to the same non-empty string as a query and as a choice. Then \<^verbatim>\<open>find_best_match\<close>
  returns the score 100 with the first display name, in the order of the catalog, that
  scores 100 against the query: the query itself when no other display name does.
\<close>

theorem find_best_match_display_name:
  assumes "\<forall>p1 p2. 0 \<le> ratios fz p1 p2 \<and> ratios fz p1 p2 \<le> 100"
    and "\<forall>p. ratios fz p p = 100"
    and "full_process fz True (full_process fz False query) = full_process fz True query"
    and "full_process fz True query \<noteq> []"
    and "Str query \<in> set (names df)"
  shows "\<exists>best. find_best_match fz df query = Inr (best, 100) \<and>
           List.find (\<lambda>c. choice_score fz query c = 100) (names df) = Some best \<and>
           ((\<forall>c\<in>set (names df). choice_score fz query c = 100 \<longrightarrow> c = Str query)
              \<longrightarrow> best = Str query)"
proof -
  have q: "choice_score fz query (Str query) = 100"
    using assms(2,3,4) by (simp add: choice_score_def WRatio_def validate_string_def py_str_def)
  have ne: "names df \<noteq> []" using assms(5) by auto
  from extractOne_best [OF assms(1) ne, of query] obtain best where
    one: "extractOne fz query (names df) = Some (best, choice_score fz query best)"
    and mem: "best \<in> set (names df)"
    and ge: "\<forall>c\<in>set (names df). choice_score fz query c \<le> choice_score fz query best"
    and first: "List.find (\<lambda>c. choice_score fz query c = choice_score fz query best) (names df) = Some best"
    by blast
  have "100 \<le> choice_score fz query best" using ge assms(5) q by force
  with choice_score_range [OF assms(1), of query best]
  have b: "choice_score fz query best = 100" by simp
  have "find_best_match fz df query = Inr (best, 100)"
    using one b by (simp add: find_best_match_def)
  with first b mem show ?thesis by auto
qed

theorem find_best_match_display_name_witness:
  "(\<forall>p1 p2. 0 \<le> ratios plain_fuzz p1 p2 \<and> ratios plain_fuzz p1 p2 \<le> 100) \<and>
   (\<forall>p. ratios plain_fuzz p p = 100) \<and>
   full_process plain_fuzz True (full_process plain_fuzz False al_diwan) = full_process plain_fuzz True al_diwan \<and>
   full_process plain_fuzz True al_diwan \<noteq> [] \<and>
   Str al_diwan \<in> set (names one_restaurant) \<and>
   find_best_match plain_fuzz one_restaurant al_diwan = Inr (Str al_diwan, 100)"
proof -
  have r: "\<forall>p1 p2. 0 \<le> ratios plain_fuzz p1 p2 \<and> ratios plain_fuzz p1 p2 \<le> 100"
    and i: "\<forall>p. ratios plain_fuzz p p = 100"
    by (simp_all add: plain_fuzz_def)
  have st: "strip al_diwan = al_diwan"
    by (simp add: al_diwan_def strip_def isspace_def)
  have s: "full_process plain_fuzz True (full_process plain_fuzz False al_diwan) = full_process plain_fuzz True al_diwan"
    and n: "full_process plain_fuzz True al_diwan \<noteq> []"
    by (simp_all add: plain_fuzz_def st) (simp add: al_diwan_def)
  have nm: "names one_restaurant = [Str al_diwan]"
    by (simp add: names_def one_restaurant_def Display_Name_def)
  then have m: "Str al_diwan \<in> set (names one_restaurant)" by simp
  from find_best_match_display_name [OF r i s n m] obtain best where
    "find_best_match plain_fuzz one_restaurant al_diwan = Inr (best, 100)"
    "List.find (\<lambda>c. choice_score plain_fuzz al_diwan c = 100) (names one_restaurant) = Some best"
    by blast
  then have "find_best_match plain_fuzz one_restaurant al_diwan = Inr (Str al_diwan, 100)"
    by (auto simp: nm split: if_splits)
  with r i s n m show ?thesis by blast
qed

text \<open>
  Claim C4 as stated fails on a display name that the package processes to the empty
  string, where \<^verbatim>\<open>WRatio\<close> answers 0 before it compares anything. A row without a name
  in a file without an \<^verbatim>\<open>English_name\<close> column has the display name \<^verbatim>\<open>""\<close>; the
  query \<^verbatim>\<open>""\<close>, which a failed transcription gives, equals it and is resolved to it with
  the score 0.
\<close>

theorem find_best_match_empty_name_counterexample:
  "Str [] \<in> set (names \<lparr>has_English_name = False,
      rows = [\<lparr>Name = NaN, English_name = NaN, Path = Str left_then_right\<rparr>]\<rparr>) \<and>
   find_best_match plain_fuzz \<lparr>has_English_name = False,
      rows = [\<lparr>Name = NaN, English_name = NaN, Path = Str left_then_right\<rparr>]\<rparr> [] = Inr (Str [], 0)"
  by (simp add: find_best_match_def names_def Display_Name_def extractOne_def extractWithoutOrder_def
      choice_score_def WRatio_def validate_string_def py_str_def plain_fuzz_def strip_def)


subsection \<open>The route lookup\<close>

lemma first_of_filter:
  "(case filter P xs of [] \<Rightarrow> a | x # _ \<Rightarrow> f x) = (case List.find P xs of None \<Rightarrow> a | Some x \<Rightarrow> f x)"
  by (induction xs) simp_all

lemma cell_eq_Str: "cell_eq c (Str nm) \<longleftrightarrow> c = Str nm"
  by (auto simp: cell_eq_def)

lemma get_path_find:
  "get_path df (Str nm) =
     (case List.find (\<lambda>r. Display_Name df r = Str nm) (rows df) of None \<Rightarrow> Str [] | Some r \<Rightarrow> Path r)"
  by (simp add: get_path_def first_of_filter cell_eq_Str)

lemma lookup_route_find:
  "lookup_route fz df nm =
     (case List.find (\<lambda>r. Display_Name df r = Str nm) (rows df) of
        Some r \<Rightarrow> Inr (Path r)
      | None \<Rightarrow>
          (case extractOne fz nm (map (Display_Name df) (rows df)) of
             None \<Rightarrow> Inl TypeError
           | Some (best, score) \<Rightarrow>
               if score \<ge> 60 then
                 (case List.find (\<lambda>r. cell_eq (Display_Name df r) best) (rows df) of
                    None \<Rightarrow> Inl IndexError
                  | Some r \<Rightarrow> Inr (Path r))
               else Inr (Str [])))"
proof -
  have "lookup_route fz df nm =
     (case filter (\<lambda>r. cell_eq (Display_Name df r) (Str nm)) (rows df) of
        [] \<Rightarrow>
          (case extractOne fz nm (map (Display_Name df) (rows df)) of
             None \<Rightarrow> Inl TypeError
           | Some (best, score) \<Rightarrow>
               if score \<ge> 60 then
                 (case filter (\<lambda>r. cell_eq (Display_Name df r) best) (rows df) of
                    [] \<Rightarrow> Inl IndexError
                  | r # _ \<Rightarrow> Inr (Path r))
               else Inr (Str []))
      | r # _ \<Rightarrow> Inr (Path r))"
    by (simp add: lookup_route_def split: list.splits)
  then show ?thesis
    by (simp only: first_of_filter cell_eq_Str)
qed

text \<open>
  Claim C5, as amended. \<^verbatim>\<open>get_path\<close>, the lookup of the voice loop, returns the
  \<^verbatim>\<open>Path\<close> cell of the first row whose display name equals the name, and \<^verbatim>\<open>""\<close> when
  no row has it; the matcher is no argument of it. \<^verbatim>\<open>lookup_route\<close>, the lookup of the
  flow handler, returns the same cell on an exact hit; without one it asks the matcher for
  the best of all display names, and returns \<^verbatim>\<open>""\<close> when its score is below 60 and the
  \<^verbatim>\<open>Path\<close> cell of the first row with that display name otherwise.
\<close>

theorem route_lookup_exact_then_fuzzy:
  "(List.find (\<lambda>r. Display_Name df r = Str nm) (rows df) = Some r \<longrightarrow>
      get_path df (Str nm) = Path r \<and> lookup_route fz df nm = Inr (Path r)) \<and>
   (List.find (\<lambda>r. Display_Name df r = Str nm) (rows df) = None \<longrightarrow>
      get_path df (Str nm) = Str [] \<and>
      (extractOne fz nm (map (Display_Name df) (rows df)) = Some (best, score) \<and> score < 60 \<longrightarrow>
         lookup_route fz df nm = Inr (Str [])) \<and>
      (extractOne fz nm (map (Display_Name df) (rows df)) = Some (best, score) \<and> 60 \<le> score \<and>
       List.find (\<lambda>r. cell_eq (Display_Name df r) best) (rows df) = Some r' \<longrightarrow>
         lookup_route fz df nm = Inr (Path r')))"
  by (simp add: get_path_find lookup_route_find)

theorem route_lookup_exact_then_fuzzy_witness:
  "get_path one_restaurant (Str al_diwan) = Str left_then_right \<and>
   lookup_route plain_fuzz one_restaurant al_diwan = Inr (Str left_then_right) \<and>
   get_path one_restaurant (Str []) = Str [] \<and>
   lookup_route plain_fuzz one_restaurant [] = Inr (Str [])"
proof -
  let ?r = "\<lparr>Name = Str al_diwan, English_name = NaN, Path = Str left_then_right\<rparr>"
  have ne: "al_diwan \<noteq> []" by (simp add: al_diwan_def)
  have hit: "List.find (\<lambda>r. Display_Name one_restaurant r = Str al_diwan) (rows one_restaurant) = Some ?r"
    by (simp add: one_restaurant_def Display_Name_def)
  have miss: "List.find (\<lambda>r. Display_Name one_restaurant r = Str []) (rows one_restaurant) = None"
    using ne by (simp add: one_restaurant_def Display_Name_def)
  have low: "extractOne plain_fuzz [] (map (Display_Name one_restaurant) (rows one_restaurant))
      = Some (Str al_diwan, 0) \<and> (0::int) < 60"
    by (simp add: one_restaurant_def Display_Name_def extractOne_def extractWithoutOrder_def
        choice_score_def WRatio_def validate_string_def plain_fuzz_def strip_def)
  from hit route_lookup_exact_then_fuzzy [of one_restaurant al_diwan ?r plain_fuzz]
  have a: "get_path one_restaurant (Str al_diwan) = Str left_then_right \<and>
      lookup_route plain_fuzz one_restaurant al_diwan = Inr (Str left_then_right)"
    by simp
  from miss low route_lookup_exact_then_fuzzy [of one_restaurant "[]" _ plain_fuzz "Str al_diwan" 0]
  have b: "get_path one_restaurant (Str []) = Str [] \<and>
      lookup_route plain_fuzz one_restaurant [] = Inr (Str [])"
    by blast
  from a b show ?thesis by blast
qed

text \<open>
  Claim C5 as stated fails for \<^verbatim>\<open>lookup_route\<close>. The name of the restaurant with a blank
  behind it is the display name of no row, and the matcher, which strips both strings,
  scores it 100 against the only display name: the route comes back, not \<^verbatim>\<open>""\<close>.
\<close>

theorem lookup_route_fuzzy_counterexample:
  "List.find (\<lambda>r. Display_Name one_restaurant r = Str (al_diwan @ [0x20])) (rows one_restaurant) = None \<and>
   lookup_route plain_fuzz one_restaurant (al_diwan @ [0x20]) = Inr (Str left_then_right) \<and>
   Str left_then_right \<noteq> Str []"
  by (simp add: lookup_route_def one_restaurant_def Display_Name_def cell_eq_def extractOne_def
      extractWithoutOrder_def choice_score_def WRatio_def validate_string_def py_str_def
      plain_fuzz_def strip_def isspace_def al_diwan_def left_then_right_def)

subsection \<open>Display names\<close>

text \<open>
  Claim C8, as amended. The display name of a row is its name when the name is present.
  When the name is missing and the file has an \<^verbatim>\<open>English_name\<close> column, it is the cell
  of that column, present or missing. When the name is missing and the file has no such
  column, it is \<^verbatim>\<open>""\<close>. A row takes part in the resolution of \<^verbatim>\<open>find_best_match\<close>
  exactly when its display name is present; the display name \<^verbatim>\<open>""\<close> is present, and it
  scores 0 against every query, given that the package processes \<^verbatim>\<open>""\<close> to \<^verbatim>\<open>""\<close>.
\<close>

theorem display_name_policy:
  "(Name r = Str s \<longrightarrow> Display_Name df r = Str s) \<and>
   (Name r = NaN \<and> has_English_name df \<longrightarrow> Display_Name df r = English_name r) \<and>
   (Name r = NaN \<and> \<not> has_English_name df \<longrightarrow> Display_Name df r = Str []) \<and>
   (r \<in> set (rows df) \<longrightarrow> (Display_Name df r \<in> set (names df) \<longleftrightarrow> Display_Name df r \<noteq> NaN)) \<and>
   (full_process fz True [] = [] \<longrightarrow> choice_score fz query (Str []) = 0)"
  by (auto simp: Display_Name_def names_def choice_score_def Let_def WRatio_def validate_string_def
      py_str_def)

theorem display_name_policy_witness:
  "Display_Name one_restaurant \<lparr>Name = Str al_diwan, English_name = NaN, Path = Str left_then_right\<rparr>
     = Str al_diwan \<and>
   Display_Name \<lparr>has_English_name = True, rows = []\<rparr>
     \<lparr>Name = NaN, English_name = Str [0x44, 0x69, 0x77, 0x61, 0x6E], Path = NaN\<rparr>
     = Str [0x44, 0x69, 0x77, 0x61, 0x6E] \<and>
   Display_Name \<lparr>has_English_name = False, rows = [\<lparr>Name = NaN, English_name = NaN, Path = NaN\<rparr>]\<rparr>
     \<lparr>Name = NaN, English_name = NaN, Path = NaN\<rparr> = Str [] \<and>
   Str [] \<in> set (names \<lparr>has_English_name = False, rows = [\<lparr>Name = NaN, English_name = NaN, Path = NaN\<rparr>]\<rparr>) \<and>
   full_process plain_fuzz True [] = [] \<and>
   choice_score plain_fuzz al_diwan (Str []) = 0"
proof -
  let ?r = "\<lparr>Name = NaN, English_name = NaN, Path = NaN\<rparr>"
  let ?df = "\<lparr>has_English_name = False, rows = [?r]\<rparr>"
  let ?e = "\<lparr>Name = NaN, English_name = Str [0x44, 0x69, 0x77, 0x61, 0x6E], Path = NaN\<rparr>"
  have p: "full_process plain_fuzz True [] = []" by (simp add: plain_fuzz_def strip_def)
  have a: "Display_Name one_restaurant \<lparr>Name = Str al_diwan, English_name = NaN, Path = Str left_then_right\<rparr>
      = Str al_diwan"
    using display_name_policy
      [of "\<lparr>Name = Str al_diwan, English_name = NaN, Path = Str left_then_right\<rparr>" al_diwan one_restaurant]
    by simp
  have b: "Display_Name \<lparr>has_English_name = True, rows = []\<rparr> ?e = Str [0x44, 0x69, 0x77, 0x61, 0x6E]"
    using display_name_policy [of ?e _ "\<lparr>has_English_name = True, rows = []\<rparr>"] by simp
  note inst = display_name_policy [of ?r _ ?df plain_fuzz al_diwan]
  have n: "Name ?r = NaN" and h: "\<not> has_English_name ?df" and m: "?r \<in> set (rows ?df)"
    by simp_all
  have c: "Display_Name ?df ?r = Str []" using inst n h by blast
  have "Display_Name ?df ?r \<in> set (names ?df)" using inst m c by (metis cell.distinct(1))
  then have d: "Str [] \<in> set (names ?df)" by (simp only: c)
  have e: "choice_score plain_fuzz al_diwan (Str []) = 0" using inst p by blast
  from a b c d e p show ?thesis by blast
qed

text \<open>
  Claim C8 as stated fails in a file that has an \<^verbatim>\<open>English_name\<close> column: a row with
  neither name keeps a missing display name, not \<^verbatim>\<open>""\<close>, and \<^verbatim>\<open>dropna\<close> leaves it out
  of the names that \<^verbatim>\<open>find_best_match\<close> resolves against.
\<close>

theorem display_name_missing_counterexample:
  "Display_Name \<lparr>has_English_name = True,
       rows = [\<lparr>Name = NaN, English_name = NaN, Path = Str left_then_right\<rparr>]\<rparr>
     \<lparr>Name = NaN, English_name = NaN, Path = Str left_then_right\<rparr> = NaN \<and>
   NaN \<noteq> Str [] \<and>
   names \<lparr>has_English_name = True,
       rows = [\<lparr>Name = NaN, English_name = NaN, Path = Str left_then_right\<rparr>]\<rparr> = []"
  by (simp add: Display_Name_def names_def)

subsection \<open>The loop body\<close>

lemma speak_sentences:
  "azure_speak msg_ask = [Speak msg_ask]"
  "azure_speak msg_not_recognised = [Speak msg_not_recognised]"
  "azure_speak msg_no_directions = [Speak msg_no_directions]"
  "azure_speak (msg_route best path) = [Speak (msg_route best path)]"
  by (simp_all add: azure_speak_def msg_ask_def msg_not_recognised_def msg_no_directions_def
      msg_route_def)

text \<open>
  Claim C9. In a pass of the loop that hears the wake word and in which
  \<^verbatim>\<open>find_best_match\<close> returns a score below 60, the assistant speaks its prompt and then
  the sentence that it did not recognise the restaurant, and \<^verbatim>\<open>get_path\<close> is not called.
\<close>

theorem low_score_not_recognised:
  assumes "str_contains text WAKE_WORD"
    and "find_best_match fz df (extract_destination question) = Inr (best, score)"
    and "score < 60"
  shows "loop_body fz df text question = ([Speak msg_ask, Speak msg_not_recognised], None) \<and>
         (\<forall>c. Lookup c \<notin> set (fst (loop_body fz df text question)))"
  using assms by (simp add: loop_body_def answer_def speak_sentences)

theorem low_score_not_recognised_witness:
  "str_contains WAKE_WORD WAKE_WORD \<and>
   find_best_match plain_fuzz one_restaurant (extract_destination []) = Inr (Str al_diwan, 0) \<and>
   loop_body plain_fuzz one_restaurant WAKE_WORD [] = ([Speak msg_ask, Speak msg_not_recognised], None)"
proof -
  have w: "str_contains WAKE_WORD WAKE_WORD" by (simp add: WAKE_WORD_def)
  have x: "extract_destination [] = []"
    by (simp add: extract_destination_def markers_def strip_def)
  have f: "find_best_match plain_fuzz one_restaurant (extract_destination []) = Inr (Str al_diwan, 0)"
    by (simp add: x find_best_match_def names_def one_restaurant_def Display_Name_def extractOne_def
        extractWithoutOrder_def choice_score_def WRatio_def validate_string_def plain_fuzz_def strip_def)
  have s: "(0::int) < 60" by simp
  from w f low_score_not_recognised [OF w f s] show ?thesis by blast
qed

text \<open>
  Claim C10. When the first row whose display name equals the name has no route,
  \<^verbatim>\<open>get_path\<close> returns the missing-value marker. The marker is not \<^verbatim>\<open>""\<close> and
  \<^verbatim>\<open>not path\<close> is false for it, so a pass of the loop that resolves the question to this
  name with a score of 60 or more calls \<^verbatim>\<open>get_path\<close> and speaks the sentence with the
  route, which ends in the letters \<^verbatim>\<open>nan\<close>.
\<close>

theorem missing_route_is_spoken:
  assumes "List.find (\<lambda>r. Display_Name df r = Str nm) (rows df) = Some r"
    and "Path r = NaN"
  shows "get_path df (Str nm) = NaN \<and> get_path df (Str nm) \<noteq> Str [] \<and>
         \<not> py_not (get_path df (Str nm)) \<and>
         (str_contains text WAKE_WORD \<and>
          find_best_match fz df (extract_destination question) = Inr (Str nm, score) \<and> 60 \<le> score \<longrightarrow>
            loop_body fz df text question =
              ([Speak msg_ask, Lookup (Str nm), Speak (msg_route (Str nm) NaN)], None)) \<and>
         msg_route (Str nm) NaN =
           [0x623, 0x642, 0x631, 0x628, 0x20, 0x645, 0x633, 0x627, 0x631, 0x20, 0x644, 0x645, 0x637,
            0x639, 0x645, 0x20] @ nm @ [0x20, 0x647, 0x648, 0x3A, 0x20, 0x6E, 0x61, 0x6E]"
proof -
  have g: "get_path df (Str nm) = NaN" using assms by (simp add: get_path_find)
  have a: "get_path df (Str nm) \<noteq> Str [] \<and> \<not> py_not (get_path df (Str nm))"
    by (simp add: g py_not_def)
  have b: "str_contains text WAKE_WORD \<and>
      find_best_match fz df (extract_destination question) = Inr (Str nm, score) \<and> 60 \<le> score \<longrightarrow>
        loop_body fz df text question =
          ([Speak msg_ask, Lookup (Str nm), Speak (msg_route (Str nm) NaN)], None)"
    by (simp add: loop_body_def answer_def speak_sentences g py_not_def)
  have c: "msg_route (Str nm) NaN =
      [0x623, 0x642, 0x631, 0x628, 0x20, 0x645, 0x633, 0x627, 0x631, 0x20, 0x644, 0x645, 0x637,
       0x639, 0x645, 0x20] @ nm @ [0x20, 0x647, 0x648, 0x3A, 0x20, 0x6E, 0x61, 0x6E]"
    by (simp add: msg_route_def py_str_def)
  from g a b c show ?thesis by blast
qed

theorem missing_route_is_spoken_witness:
  "get_path \<lparr>has_English_name = False, rows = [\<lparr>Name = Str al_diwan, English_name = NaN, Path = NaN\<rparr>]\<rparr>
     (Str al_diwan) = NaN \<and>
   loop_body plain_fuzz
     \<lparr>has_English_name = False, rows = [\<lparr>Name = Str al_diwan, English_name = NaN, Path = NaN\<rparr>]\<rparr>
     WAKE_WORD ([0x62E, 0x630, 0x646, 0x64A, 0x20, 0x625, 0x644, 0x649, 0x20] @ al_diwan)
     = ([Speak msg_ask, Lookup (Str al_diwan), Speak (msg_route (Str al_diwan) NaN)], None)"
proof -
  let ?r = "\<lparr>Name = Str al_diwan, English_name = NaN, Path = NaN\<rparr>"
  let ?df = "\<lparr>has_English_name = False, rows = [?r]\<rparr>"
  let ?q = "[0x62E, 0x630, 0x646, 0x64A, 0x20, 0x625, 0x644, 0x649, 0x20] @ al_diwan"
  have h: "List.find (\<lambda>r. Display_Name ?df r = Str al_diwan) (rows ?df) = Some ?r"
    by (simp add: Display_Name_def)
  have p: "Path ?r = NaN" by simp
  have w: "str_contains WAKE_WORD WAKE_WORD" by (simp add: WAKE_WORD_def)
  have x: "extract_destination ?q = al_diwan"
    by (simp add: al_diwan_def extract_destination_def markers_def lam_def tatweel_def
        after_marker_def group1_def in_class_def isspace_def strip_def)
  have st: "strip al_diwan = al_diwan" by (simp add: al_diwan_def strip_def isspace_def)
  have ne: "al_diwan \<noteq> []" by (simp add: al_diwan_def)
  have f: "find_best_match plain_fuzz ?df (extract_destination ?q) = Inr (Str al_diwan, 100)"
    unfolding x using ne
    by (simp add: find_best_match_def names_def Display_Name_def extractOne_def
        extractWithoutOrder_def choice_score_def WRatio_def validate_string_def py_str_def
        plain_fuzz_def st)
  have s: "(60::int) \<le> 100" by simp
  from missing_route_is_spoken [OF h p, of WAKE_WORD plain_fuzz ?q 100] w f s
  show ?thesis by blast
qed

end
